theory Spec2Isabelle
  imports Complex_Main
begin

section \<open>Python values used by \<open>scripts/add-vendor-to-catalog.py\<close>\<close>

text \<open>
  A Python \<open>str\<close> is a sequence of Unicode code points; a code point is a natural number.
  \<open>ascii\<close> turns an ASCII literal into such a string, so that the keys the script names
  (\<open>'Handle'\<close>, \<open>'Vendor'\<close>, \<open>'handle'\<close>, \<open>'vendor'\<close>, \<open>'products'\<close>) can be written as text.
\<close>

type_synonym pystr = "nat list"

definition ascii :: "string \<Rightarrow> pystr" where
  "ascii s = map of_char s"

text \<open>
  \<open>str.strip()\<close> without argument removes leading and trailing whitespace, and whitespace is
  what \<open>str.isspace\<close> accepts: the code points U+0009..U+000D, U+001C..U+0020, U+0085, U+00A0,
  U+1680, U+2000..U+200A, U+2028, U+2029, U+202F, U+205F and U+3000.
\<close>

definition isspace :: "nat \<Rightarrow> bool" where
  "isspace c \<longleftrightarrow>
     (9 \<le> c \<and> c \<le> 13) \<or> (28 \<le> c \<and> c \<le> 32) \<or> c = 133 \<or> c = 160 \<or> c = 5760 \<or>
     (8192 \<le> c \<and> c \<le> 8202) \<or> c = 8232 \<or> c = 8233 \<or> c = 8239 \<or> c = 8287 \<or> c = 12288"

definition strip :: "pystr \<Rightarrow> pystr" where
  "strip s = rev (dropWhile isspace (rev (dropWhile isspace s)))"

text \<open>
  \<open>str.lower()\<close> is the Unicode lower-case mapping of the interpreter. Its tables are not part
  of the script, so every function that lower-cases takes the mapping as its first argument
  \<open>lower\<close>, and every theorem holds for any such mapping. \<open>ascii_lower\<close> is the mapping on
  ASCII text (\<open>A\<close>..\<open>Z\<close> to \<open>a\<close>..\<open>z\<close>, everything else kept); the examples use it.
\<close>

definition ascii_lower :: "pystr \<Rightarrow> pystr" where
  "ascii_lower s = map (\<lambda>c. if 65 \<le> c \<and> c \<le> 90 then c + 32 else c) s"

text \<open>The exceptions the script can end with.\<close>

datatype error =
    FileNotFoundError
  | UnicodeDecodeError
  | CsvError
  | JSONDecodeError
  | AttributeError
  | KeyError
  | TypeError
  | OSError

text \<open>
  A Python \<open>dict\<close> keeps its keys unique and in insertion order: an association list in which
  \<open>d[k] = v\<close> overwrites the entry of \<open>k\<close> in place, or appends a new entry at the end.
\<close>

type_synonym ('k, 'v) dict = "('k \<times> 'v) list"

fun dict_get :: "('k, 'v) dict \<Rightarrow> 'k \<Rightarrow> 'v option" where
  "dict_get [] k = None"
| "dict_get ((k', v) # d) k = (if k' = k then Some v else dict_get d k)"

fun dict_set :: "('k, 'v) dict \<Rightarrow> 'k \<Rightarrow> 'v \<Rightarrow> ('k, 'v) dict" where
  "dict_set [] k v = [(k, v)]"
| "dict_set ((k', v') # d) k v = (if k' = k then (k, v) # d else (k', v') # dict_set d k v)"

definition dict_keys :: "('k, 'v) dict \<Rightarrow> 'k set" where
  "dict_keys d = {k. dict_get d k \<noteq> None}"

section \<open>The vendor map loader: \<open>load_vendor_map\<close>\<close>

text \<open>
  \<open>csv.DictReader\<close> over the rows of \<open>csv.reader\<close>. The first row read is the list of field
  names; every later row that is not empty becomes a dict \<open>dict(zip(fieldnames, row))\<close>. A row
  longer than the field names stores its surplus fields as a list under the key \<open>None\<close>
  (\<open>restkey\<close>); a shorter row stores \<open>None\<close> (\<open>restval\<close>) under each field name it has no
  value for. So a key of a row is a string or \<open>None\<close>, and a value is a string, \<open>None\<close> or a
  list of strings.
\<close>

datatype cell = Str pystr | NoneVal | Rest "pystr list"

type_synonym row = "(pystr option, cell) dict"

definition to_row :: "pystr list \<Rightarrow> pystr list \<Rightarrow> row" where
  "to_row fieldnames r =
     (let d = foldl (\<lambda>d (k, v). dict_set d (Some k) (Str v)) [] (zip fieldnames r);
          lf = length fieldnames;
          lr = length r
      in if lf < lr then dict_set d None (Rest (drop lf r))
         else if lf > lr then foldl (\<lambda>d k. dict_set d (Some k) NoneVal) d (drop lr fieldnames)
         else d)"

fun DictReader :: "pystr list list \<Rightarrow> row list" where
  "DictReader [] = []"
| "DictReader (fieldnames # rows) = map (to_row fieldnames) (filter (\<lambda>r. r \<noteq> []) rows)"

text \<open>
  \<open>row.get(key, '')\<close> followed by a string method: the default \<open>''\<close> stands in for an absent
  key only. A value that is present but is not a string (the \<open>None\<close> of a short row) has no
  \<open>lower\<close> or \<open>strip\<close> attribute, and the call raises \<open>AttributeError\<close>.
\<close>

definition row_get :: "row \<Rightarrow> pystr \<Rightarrow> cell" where
  "row_get r key = (case dict_get r (Some key) of None \<Rightarrow> Str [] | Some v \<Rightarrow> v)"

definition cell_str :: "cell \<Rightarrow> error + pystr" where
  "cell_str v = (case v of Str s \<Rightarrow> Inr s | NoneVal \<Rightarrow> Inl AttributeError | Rest xs \<Rightarrow> Inl AttributeError)"

type_synonym vendor_map = "(pystr, pystr) dict"

text \<open>
  Lines 19 and 20: the normalised handle and the trimmed vendor of a row, or the exception
  of the method call.
\<close>

definition row_handle :: "(pystr \<Rightarrow> pystr) \<Rightarrow> row \<Rightarrow> error + pystr" where
  "row_handle lower r =
     (case cell_str (row_get r (ascii ''Handle'')) of Inl e \<Rightarrow> Inl e | Inr h \<Rightarrow> Inr (strip (lower h)))"

definition row_vendor :: "row \<Rightarrow> error + pystr" where
  "row_vendor r =
     (case cell_str (row_get r (ascii ''Vendor'')) of Inl e \<Rightarrow> Inl e | Inr v \<Rightarrow> Inr (strip v))"

text \<open>
  The body of the loop over the reader (lines 19 to 23), then the loop itself with the map
  as accumulator. The first row that raises ends the loop with its exception.
\<close>

definition load_row :: "(pystr \<Rightarrow> pystr) \<Rightarrow> vendor_map \<Rightarrow> row \<Rightarrow> error + vendor_map" where
  "load_row lower vendor_map r =
     (case row_handle lower r of
        Inl e \<Rightarrow> Inl e
      | Inr handle \<Rightarrow>
          (case row_vendor r of
             Inl e \<Rightarrow> Inl e
           | Inr vendor \<Rightarrow>
               if handle \<noteq> [] \<and> vendor \<noteq> [] then Inr (dict_set vendor_map handle vendor)
               else Inr vendor_map))"

fun load_rows :: "(pystr \<Rightarrow> pystr) \<Rightarrow> vendor_map \<Rightarrow> row list \<Rightarrow> error + vendor_map" where
  "load_rows lower vendor_map [] = Inr vendor_map"
| "load_rows lower vendor_map (r # rs) =
     (case load_row lower vendor_map r of
        Inl e \<Rightarrow> Inl e
      | Inr vendor_map' \<Rightarrow> load_rows lower vendor_map' rs)"

text \<open>
  Files. A file has its bytes and the metadata \<open>shutil.copy2\<close> carries over (permission bits,
  times, flags); the type of the metadata is left open. The file system maps a path to the
  file stored there: a path holds a regular file that can be read, or nothing, and opening
  a path that holds nothing for reading raises \<open>FileNotFoundError\<close>. The paths are the
  constants of lines 30 and 31, relative to the directory the script runs in.
\<close>

record 'm disk_file =
  content :: string
  meta :: 'm

type_synonym 'm fs = "string \<Rightarrow> 'm disk_file option"

definition csv_path :: string where
  "csv_path = ''Products.csv''"

definition catalog_path :: string where
  "catalog_path = ''valid_image_catalog.json''"

text \<open>
  The library functions the script calls on file contents, taken as parameters:
  \<^item> \<open>str_lower\<close>: \<open>str.lower\<close>;
  \<^item> \<open>csv_reader\<close>: decoding as \<open>utf-8-sig\<close> and \<open>csv.reader\<close>. The reader is an iterator: it
    yields rows and may then stop with an exception (\<open>UnicodeDecodeError\<close>, \<open>csv.Error\<close>),
    so its result is the rows yielded and the exception, if any, that ended it;
  \<^item> \<open>json_load\<close>: decoding and \<open>json.load\<close>, which returns a document or raises;
  \<^item> \<open>json_dump\<close>: the text \<open>json.dump(_, indent=2)\<close> writes.
\<close>

datatype 'n json =
    JNull
  | JBool bool
  | JNum 'n
  | JStr pystr
  | JArr "'n json list"
  | JObj "(pystr \<times> 'n json) list"

record 'n lib =
  str_lower :: "pystr \<Rightarrow> pystr"
  csv_reader :: "string \<Rightarrow> pystr list list \<times> error option"
  json_load :: "string \<Rightarrow> error + 'n json"
  json_dump :: "'n json \<Rightarrow> string"

text \<open>
  \<open>load_vendor_map\<close> (lines 12 to 26): open the file, loop over the rows of the
  \<open>DictReader\<close>, return the map. An exception of the loop body comes before the exception
  that ends the reader, since the rows are read one at a time.
\<close>

definition load_vendor_map :: "'n lib \<Rightarrow> 'm fs \<Rightarrow> string \<Rightarrow> error + vendor_map" where
  "load_vendor_map L fs path =
     (case fs path of
        None \<Rightarrow> Inl FileNotFoundError
      | Some f \<Rightarrow>
          (case csv_reader L (content f) of
             (rows, stop) \<Rightarrow>
               (case load_rows (str_lower L) [] (DictReader rows) of
                  Inl e \<Rightarrow> Inl e
                | Inr vendor_map \<Rightarrow>
                    (case stop of None \<Rightarrow> Inr vendor_map | Some e \<Rightarrow> Inl e))))"

section \<open>The catalog update: the loop of \<open>main\<close>\<close>

text \<open>
  \<open>product.get('handle', '').lower().strip()\<close> (line 45). Only a dict has \<open>get\<close>, and only a
  string has \<open>lower\<close>: any other product or handle value raises \<open>AttributeError\<close>.
\<close>

definition get_handle :: "(pystr \<Rightarrow> pystr) \<Rightarrow> 'n json \<Rightarrow> error + pystr" where
  "get_handle lower product =
     (case product of
        JObj d \<Rightarrow>
          (case (case dict_get d (ascii ''handle'') of None \<Rightarrow> JStr [] | Some v \<Rightarrow> v) of
             JStr h \<Rightarrow> Inr (strip (lower h))
           | _ \<Rightarrow> Inl AttributeError)
      | _ \<Rightarrow> Inl AttributeError)"

text \<open>\<open>obj[key] = value\<close> on a JSON value: a dict stores the entry, anything else raises.\<close>

definition setitem :: "'n json \<Rightarrow> pystr \<Rightarrow> 'n json \<Rightarrow> error + 'n json" where
  "setitem obj key v = (case obj of JObj d \<Rightarrow> Inr (JObj (dict_set d key v)) | _ \<Rightarrow> Inl TypeError)"

text \<open>
  The body of the loop (lines 45 to 51) on one product: the product after the step, and
  whether the step took the branch that counts in \<open>updated_count\<close>.
\<close>

definition update_product ::
  "(pystr \<Rightarrow> pystr) \<Rightarrow> vendor_map \<Rightarrow> 'n json \<Rightarrow> error + ('n json \<times> bool)" where
  "update_product lower vendor_map product =
     (case get_handle lower product of
        Inl e \<Rightarrow> Inl e
      | Inr handle \<Rightarrow>
          if handle \<noteq> [] \<and> dict_get vendor_map handle \<noteq> None then
            (case dict_get vendor_map handle of
               None \<Rightarrow> Inl KeyError
             | Some v \<Rightarrow>
                 (case setitem product (ascii ''vendor'') (JStr v) of
                    Inl e \<Rightarrow> Inl e
                  | Inr product' \<Rightarrow> Inr (product', True)))
          else Inr (product, False))"

text \<open>
  The loop of lines 44 to 53 over the products, with the two counters as they stand before
  the product: the products after the loop and the final \<open>updated_count\<close> and
  \<open>not_found_count\<close>.
\<close>

fun update_loop ::
  "(pystr \<Rightarrow> pystr) \<Rightarrow> vendor_map \<Rightarrow> 'n json list \<Rightarrow> nat \<Rightarrow> nat \<Rightarrow>
     error + ('n json list \<times> nat \<times> nat)" where
  "update_loop lower vendor_map [] updated_count not_found_count =
     Inr ([], updated_count, not_found_count)"
| "update_loop lower vendor_map (product # rest) updated_count not_found_count =
     (case update_product lower vendor_map product of
        Inl e \<Rightarrow> Inl e
      | Inr (product', hit) \<Rightarrow>
          (case (if hit then update_loop lower vendor_map rest (updated_count + 1) not_found_count
                 else update_loop lower vendor_map rest updated_count (not_found_count + 1)) of
             Inl e \<Rightarrow> Inl e
           | Inr (rest', counts) \<Rightarrow> Inr (product' # rest', counts)))"

text \<open>
  \<open>catalog['products']\<close> and the iteration over it. A dict without the key raises
  \<open>KeyError\<close>, a document that is no dict \<open>TypeError\<close>. A list is iterated product by product.
  Iterating a dict or a string yields strings, which have no \<open>get\<close>, so the first step raises
  \<open>AttributeError\<close> unless there is nothing to iterate; a number, a boolean or \<open>null\<close> cannot
  be iterated. The script changes the dicts of the list in place; here the products the
  loop returns take the place of the list under \<open>products\<close>, which is the same document.
  The result is the document after the loop with the two counters.
\<close>

definition getitem_products :: "'n json \<Rightarrow> error + 'n json" where
  "getitem_products catalog =
     (case catalog of
        JObj d \<Rightarrow> (case dict_get d (ascii ''products'') of None \<Rightarrow> Inl KeyError | Some v \<Rightarrow> Inr v)
      | _ \<Rightarrow> Inl TypeError)"

definition update_catalog ::
  "(pystr \<Rightarrow> pystr) \<Rightarrow> vendor_map \<Rightarrow> 'n json \<Rightarrow> error + ('n json \<times> nat \<times> nat)" where
  "update_catalog lower vendor_map catalog =
     (case getitem_products catalog of
        Inl e \<Rightarrow> Inl e
      | Inr products \<Rightarrow>
          (case products of
             JArr ps \<Rightarrow>
               (case update_loop lower vendor_map ps 0 0 of
                  Inl e \<Rightarrow> Inl e
                | Inr (ps', counts) \<Rightarrow>
                    (case setitem catalog (ascii ''products'') (JArr ps') of
                       Inl e \<Rightarrow> Inl e
                     | Inr catalog' \<Rightarrow> Inr (catalog', counts)))
           | JObj d \<Rightarrow> if d = [] then Inr (catalog, 0, 0) else Inl AttributeError
           | JStr s \<Rightarrow> if s = [] then Inr (catalog, 0, 0) else Inl AttributeError
           | _ \<Rightarrow> Inl TypeError))"

section \<open>Backup and write: the rest of \<open>main\<close>\<close>

text \<open>
  What the script cannot decide is an input of the model: the clock, whether the copy and
  the write go through, and the metadata the operating system gives a file it creates or
  rewrites. A copy or a write can fail before the target is opened, which leaves the file
  system as it was, or after some bytes have reached the target, which leaves a prefix there.
\<close>

datatype fault = NoFault | OpenFails | FailsAfter nat

record 'm env =
  timestamp :: rat
  copy_fault :: fault
  write_fault :: fault
  created :: 'm
  modified :: "'m \<Rightarrow> 'm"

definition written_meta :: "'m env \<Rightarrow> 'm fs \<Rightarrow> string \<Rightarrow> 'm" where
  "written_meta E fs path = (case fs path of None \<Rightarrow> created E | Some f \<Rightarrow> modified E (meta f))"

text \<open>
  \<open>shutil.copy2(src, dst)\<close>: the bytes of \<open>src\<close>, then its metadata, go to \<open>dst\<close>. A missing
  source raises \<open>FileNotFoundError\<close>; source and target being the same file raises
  \<open>SameFileError\<close>, a subclass of \<open>OSError\<close>. The result is the exception, if any, and the file
  system afterwards.
\<close>

definition copy2 :: "'m env \<Rightarrow> 'm fs \<Rightarrow> string \<Rightarrow> string \<Rightarrow> error option \<times> 'm fs" where
  "copy2 E fs src dst =
     (case fs src of
        None \<Rightarrow> (Some FileNotFoundError, fs)
      | Some f \<Rightarrow>
          if src = dst then (Some OSError, fs)
          else
            (case copy_fault E of
               NoFault \<Rightarrow> (None, fs(dst \<mapsto> f))
             | OpenFails \<Rightarrow> (Some OSError, fs)
             | FailsAfter n \<Rightarrow>
                 (Some OSError,
                  fs(dst \<mapsto> \<lparr>content = take n (content f), meta = written_meta E fs dst\<rparr>))))"

text \<open>\<open>with open(path, 'w') as f: json.dump(catalog, f, indent=2)\<close>, given the text dumped.\<close>

definition write_text :: "'m env \<Rightarrow> 'm fs \<Rightarrow> string \<Rightarrow> string \<Rightarrow> error option \<times> 'm fs" where
  "write_text E fs path txt =
     (case write_fault E of
        NoFault \<Rightarrow> (None, fs(path \<mapsto> \<lparr>content = txt, meta = written_meta E fs path\<rparr>))
      | OpenFails \<Rightarrow> (Some OSError, fs)
      | FailsAfter n \<Rightarrow>
          (Some OSError, fs(path \<mapsto> \<lparr>content = take n txt, meta = written_meta E fs path\<rparr>)))"

text \<open>
  Line 60: \<open>int(x)\<close> truncates the float towards zero, and the f-string writes the integer
  in decimal after the catalog path and \<open>.backup-\<close>.
\<close>

definition py_int :: "rat \<Rightarrow> int" where
  "py_int x = (if 0 \<le> x then \<lfloor>x\<rfloor> else \<lceil>x\<rceil>)"

fun digits :: "nat \<Rightarrow> string" where
  "digits n =
     (if n < 10 then [''0123456789'' ! n] else digits (n div 10) @ [''0123456789'' ! (n mod 10)])"

definition str_int :: "int \<Rightarrow> string" where
  "str_int i = (if i < 0 then CHR ''-'' # digits (nat (- i)) else digits (nat i))"

definition backup_path :: "'m env \<Rightarrow> string" where
  "backup_path E = catalog_path @ ''.backup-'' @ str_int (py_int (timestamp E))"

text \<open>
  \<open>main\<close> (lines 28 to 67): the outcome, which is the exception that ended the run or the two
  counters, and the file system the run leaves. An exception of one step ends the run
  there, so no later step runs. The lines the script prints are left out.
\<close>

definition main :: "'n lib \<Rightarrow> 'm env \<Rightarrow> 'm fs \<Rightarrow> (error + nat \<times> nat) \<times> 'm fs" where
  "main L E fs =
     (case load_vendor_map L fs csv_path of
        Inl e \<Rightarrow> (Inl e, fs)
      | Inr vendor_map \<Rightarrow>
          (case fs catalog_path of
             None \<Rightarrow> (Inl FileNotFoundError, fs)
           | Some f \<Rightarrow>
               (case json_load L (content f) of
                  Inl e \<Rightarrow> (Inl e, fs)
                | Inr catalog \<Rightarrow>
                    (case update_catalog (str_lower L) vendor_map catalog of
                       Inl e \<Rightarrow> (Inl e, fs)
                     | Inr (catalog', counts) \<Rightarrow>
                         (case copy2 E fs catalog_path (backup_path E) of
                            (Some e, fs1) \<Rightarrow> (Inl e, fs1)
                          | (None, fs1) \<Rightarrow>
                              (case write_text E fs1 catalog_path (json_dump L catalog') of
                                 (Some e, fs2) \<Rightarrow> (Inl e, fs2)
                               | (None, fs2) \<Rightarrow> (Inr counts, fs2)))))))"

section \<open>Notions used to state the properties\<close>

text \<open>The entries of a dict under every key but one, in their order.\<close>

definition other_fields :: "'k \<Rightarrow> ('k, 'v) dict \<Rightarrow> ('k, 'v) dict" where
  "other_fields key d = filter (\<lambda>kv. fst kv \<noteq> key) d"

section \<open>A concrete run\<close>

text \<open>
  The examples need the library functions on concrete files. \<open>plain_csv\<close> is what
  \<open>csv.reader\<close> yields on ASCII text without quote characters and carriage returns: one row
  for each line, its fields split at the commas, and the empty row for an empty line.
\<close>

fun split_on :: "char \<Rightarrow> string \<Rightarrow> string list" where
  "split_on c [] = [[]]"
| "split_on c (x # xs) =
     (if x = c then [] # split_on c xs
      else (case split_on c xs of [] \<Rightarrow> [[x]] | y # ys \<Rightarrow> (x # y) # ys))"

definition plain_csv :: "string \<Rightarrow> pystr list list \<times> error option" where
  "plain_csv txt =
     (let ls = split_on CHR 0x0A txt;
          ls' = (if last ls = [] then butlast ls else ls)
      in (map (\<lambda>l. if l = [] then [] else map ascii (split_on CHR '','' l)) ls', None))"

text \<open>
  The catalog of the example as a document, the vendor map the example table gives, the
  document after the update, the text of the input file, and the text
  \<open>json.dump(_, indent=2)\<close> writes for the document after the update. The two JSON functions
  of the example are the library's on these texts, and are not meant beyond them.
\<close>

definition example_products :: "int json list" where
  "example_products =
     [JObj [(ascii ''handle'', JStr (ascii ''Hat-001'')),
            (ascii ''title'', JStr (ascii ''Red Hat''))],
      JObj [(ascii ''handle'', JStr (ascii ''unknown-999'')),
            (ascii ''vendor'', JStr (ascii ''Old''))]]"

definition example_catalog :: "int json" where
  "example_catalog =
     JObj [(ascii ''products'', JArr example_products), (ascii ''version'', JNum 1)]"

definition example_vendor_map :: vendor_map where
  "example_vendor_map = [(ascii ''hat-001'', ascii ''Acme'')]"

definition example_products_updated :: "int json list" where
  "example_products_updated =
     [JObj [(ascii ''handle'', JStr (ascii ''Hat-001'')),
            (ascii ''title'', JStr (ascii ''Red Hat'')),
            (ascii ''vendor'', JStr (ascii ''Acme''))],
      JObj [(ascii ''handle'', JStr (ascii ''unknown-999'')),
            (ascii ''vendor'', JStr (ascii ''Old''))]]"

definition example_updated :: "int json" where
  "example_updated =
     JObj [(ascii ''products'', JArr example_products_updated), (ascii ''version'', JNum 1)]"

definition example_json :: string where
  \<open>example_json =
     ''{"products": [{"handle": "Hat-001", "title": "Red Hat"}, {"handle": "unknown-999", "vendor": "Old"}], "version": 1}''\<close>

definition example_written :: string where
  \<open>example_written =
     ''{\<newline>  "products": [\<newline>    {\<newline>      "handle": "Hat-001",\<newline>      "title": "Red Hat",\<newline>      "vendor": "Acme"\<newline>    },\<newline>    {\<newline>      "handle": "unknown-999",\<newline>      "vendor": "Old"\<newline>    }\<newline>  ],\<newline>  "version": 1\<newline>}''\<close>

definition example_lib :: "int lib" where
  "example_lib =
     \<lparr>str_lower = ascii_lower,
      csv_reader = plain_csv,
      json_load = (\<lambda>txt. if txt = example_json then Inr example_catalog else Inl JSONDecodeError),
      json_dump = (\<lambda>doc. if doc = example_updated then example_written else [])\<rparr>"

text \<open>
  The two input files, with a number standing for the metadata, and an environment in which
  the clock reads 1700000000.5 and nothing fails.
\<close>

definition example_fs :: "nat fs" where
  "example_fs =
     [csv_path \<mapsto> \<lparr>content = ''Handle,Vendor\<newline>hat-001,Acme\<newline>'', meta = 7\<rparr>,
      catalog_path \<mapsto> \<lparr>content = example_json, meta = 8\<rparr>]"

definition example_env :: "nat env" where
  "example_env =
     \<lparr>timestamp = 17000000005 / 10, copy_fault = NoFault, write_fault = NoFault,
      created = 0, modified = Suc\<rparr>"

section \<open>Dicts and strings\<close>

lemma dict_get_set: "dict_get (dict_set d k v) k' = (if k' = k then Some v else dict_get d k')"
  by (induction d) auto

lemma dict_set_idem: "dict_set (dict_set d k v) k v = dict_set d k v"
  by (induction d) auto

lemma other_fields_set: "other_fields k (dict_set d k v) = other_fields k d"
  by (induction d) (auto simp: other_fields_def)

lemma map_fst_dict_set:
  "map fst (dict_set d k v) = (if dict_get d k = None then map fst d @ [k] else map fst d)"
  by (induction d) (auto split: if_splits)

lemma strip_ends:
  assumes ne: "strip s \<noteq> []"
  shows "\<not> isspace (hd (strip s)) \<and> \<not> isspace (last (strip s))"
proof -
  define u where "u = dropWhile isspace s"
  define w where "w = dropWhile isspace (rev u)"
  have t: "strip s = rev w" by (simp add: strip_def u_def w_def)
  with ne have w: "w \<noteq> []" by simp
  then have hw: "\<not> isspace (hd w)" unfolding w_def by (simp add: hd_dropWhile)
  have "rev u = takeWhile isspace (rev u) @ w" by (simp add: w_def)
  then have "u = rev w @ rev (takeWhile isspace (rev u))"
    by (metis rev_append rev_rev_ident)
  with w have hu: "hd u = last w" by (metis hd_append2 hd_rev rev_is_Nil_conv)
  from w have "u \<noteq> []" unfolding w_def by auto
  then have "\<not> isspace (hd u)" unfolding u_def by (simp add: hd_dropWhile)
  with hu hw t w show ?thesis by (simp add: hd_rev last_rev)
qed

lemma strip_idem: "strip (strip s) = strip s"
proof (cases "strip s = []")
  case True
  have "strip [] = []" by (simp add: strip_def)
  with True show ?thesis by simp
next
  case False
  from strip_ends[OF False] have h: "\<not> isspace (hd (strip s))"
    and l: "\<not> isspace (last (strip s))" by auto
  from False h have 1: "dropWhile isspace (strip s) = strip s" by (cases "strip s") auto
  from False l have 2: "dropWhile isspace (rev (strip s)) = rev (strip s)"
    by (cases "rev (strip s)") (auto simp: last_rev hd_rev)
  show ?thesis unfolding strip_def[of "strip s"] 1 2 by simp
qed

lemma strip_space_only:
  assumes "list_all isspace s"
  shows "strip s = []"
proof -
  from assms have d: "dropWhile isspace s = []"
    by (simp add: list_all_iff)
  show ?thesis unfolding strip_def d by simp
qed

lemma ascii_lower_space: "list_all isspace s \<Longrightarrow> list_all isspace (ascii_lower s)"
  by (induction s) (auto simp: ascii_lower_def isspace_def)

section \<open>The loader\<close>

lemma load_row_Inr:
  assumes "load_row lower vm r = Inr vm'"
  obtains handle vendor where "row_handle lower r = Inr handle" "row_vendor r = Inr vendor"
    "vm' = (if handle \<noteq> [] \<and> vendor \<noteq> [] then dict_set vm handle vendor else vm)"
  using assms by (auto simp: load_row_def split: sum.splits if_splits)

lemma load_row_ok:
  "row_handle lower r = Inr handle \<Longrightarrow> row_vendor r = Inr vendor \<Longrightarrow>
     load_row lower vm r =
       Inr (if handle \<noteq> [] \<and> vendor \<noteq> [] then dict_set vm handle vendor else vm)"
  by (simp add: load_row_def)

lemma load_rows_append:
  "load_rows lower vm (rs @ rs') =
     (case load_rows lower vm rs of Inl e \<Rightarrow> Inl e | Inr vm1 \<Rightarrow> load_rows lower vm1 rs')"
  by (induction rs arbitrary: vm) (auto split: sum.splits)

lemma load_rows_skip:
  assumes "load_rows lower vm rs = Inr vm'"
    and "\<forall>r\<in>set rs. row_handle lower r = Inr k \<longrightarrow> row_vendor r = Inr []"
  shows "dict_get vm' k = dict_get vm k"
  using assms
proof (induction rs arbitrary: vm)
  case Nil
  then show ?case by simp
next
  case (Cons r rs)
  from Cons.prems(1) obtain vm1 where r: "load_row lower vm r = Inr vm1"
    and rest: "load_rows lower vm1 rs = Inr vm'"
    by (auto split: sum.splits)
  from r obtain handle vendor where
    hv: "row_handle lower r = Inr handle" "row_vendor r = Inr vendor"
      "vm1 = (if handle \<noteq> [] \<and> vendor \<noteq> [] then dict_set vm handle vendor else vm)"
    by (rule load_row_Inr)
  from hv Cons.prems(2) have "dict_get vm1 k = dict_get vm k"
    by (auto simp: dict_get_set)
  moreover from Cons.IH[OF rest] Cons.prems(2) have "dict_get vm' k = dict_get vm1 k" by simp
  ultimately show ?case by simp
qed

lemma row_handle_stripped: "row_handle lower r = Inr k \<Longrightarrow> strip k = k"
  by (auto simp: row_handle_def strip_idem split: sum.splits)

lemma row_vendor_stripped: "row_vendor r = Inr v \<Longrightarrow> strip v = v"
  by (auto simp: row_vendor_def strip_idem split: sum.splits)

lemma load_rows_entries:
  assumes "load_rows lower vm rs = Inr vm'" and "dict_get vm' k = Some v"
  shows "dict_get vm k = Some v \<or>
         (k \<noteq> [] \<and> v \<noteq> [] \<and> (\<exists>r\<in>set rs. row_handle lower r = Inr k \<and> row_vendor r = Inr v))"
  using assms
proof (induction rs arbitrary: vm)
  case Nil
  then show ?case by simp
next
  case (Cons r rs)
  from Cons.prems(1) obtain vm1 where r: "load_row lower vm r = Inr vm1"
    and rest: "load_rows lower vm1 rs = Inr vm'"
    by (auto split: sum.splits)
  from r obtain handle vendor where
    hv: "row_handle lower r = Inr handle" "row_vendor r = Inr vendor"
      "vm1 = (if handle \<noteq> [] \<and> vendor \<noteq> [] then dict_set vm handle vendor else vm)"
    by (rule load_row_Inr)
  from Cons.IH[OF rest Cons.prems(2)] show ?case
  proof
    assume "dict_get vm1 k = Some v"
    with hv show ?thesis by (auto simp: dict_get_set split: if_splits)
  next
    assume "k \<noteq> [] \<and> v \<noteq> [] \<and> (\<exists>r\<in>set rs. row_handle lower r = Inr k \<and> row_vendor r = Inr v)"
    then show ?thesis by auto
  qed
qed

lemma load_vendor_map_Inr:
  assumes "load_vendor_map L fs path = Inr vm"
  obtains f rows where "fs path = Some f" "csv_reader L (content f) = (rows, None)"
    "load_rows (str_lower L) [] (DictReader rows) = Inr vm"
  using assms
  by (auto simp: load_vendor_map_def split: option.splits prod.splits sum.splits)

text \<open>
  Every entry of a map the loader returns has a key and a value that are not empty and
  have no whitespace at either end; the key is the lower-cased, trimmed handle of a row.
\<close>

lemma load_vendor_map_entries:
  assumes "load_vendor_map L fs path = Inr vm" and "dict_get vm k = Some v"
  shows "k \<noteq> [] \<and> v \<noteq> [] \<and> strip k = k \<and> strip v = v"
proof -
  from assms(1) obtain rows where "load_rows (str_lower L) [] (DictReader rows) = Inr vm"
    by (auto simp: load_vendor_map_def split: option.splits prod.splits sum.splits)
  from load_rows_entries[OF this assms(2)] show ?thesis
    by (auto dest: row_handle_stripped row_vendor_stripped)
qed

lemma load_vendor_map_no_empty_key: "load_vendor_map L fs path = Inr vm \<Longrightarrow> dict_get vm [] = None"
  using load_vendor_map_entries[of L fs path vm "[]"] by (cases "dict_get vm []") auto

lemma load_rows_Inl: "load_rows lower vm rs = Inl e \<Longrightarrow> e = AttributeError"
proof (induction rs arbitrary: vm)
  case Nil
  then show ?case by simp
next
  case (Cons r rs)
  show ?case
  proof (cases "load_row lower vm r")
    case (Inl e')
    with Cons.prems have "e' = e" by simp
    with Inl show ?thesis
      by (auto simp: load_row_def row_handle_def row_vendor_def cell_str_def
          split: sum.splits cell.splits if_splits)
  next
    case (Inr vm1)
    with Cons.prems have "load_rows lower vm1 rs = Inl e" by simp
    then show ?thesis by (rule Cons.IH)
  qed
qed

text \<open>The definitions that evaluate the loader on a concrete table.\<close>

lemmas loader_eval =
  load_vendor_map_def example_lib_def plain_csv_def to_row_def row_handle_def row_vendor_def
  row_get_def cell_str_def load_row_def ascii_def strip_def ascii_lower_def isspace_def
  csv_path_def

text \<open>
  C6. The loader is to add an entry for a row exactly when the normalised handle and the
  trimmed vendor are both non-empty, to read a missing Handle or Vendor as the empty string,
  and to skip every other row without raising. The code does so for a column that the
  header does not have, through the default of \<open>row.get\<close>. It does not for a row that is
  shorter than the header: \<open>DictReader\<close> stores \<open>None\<close> under the column, \<open>row.get\<close> returns
  that \<open>None\<close>, and the method call on it raises. On the table with the header
  \<open>Handle,Vendor\<close> and the one data row \<open>abc\<close> the loader ends with \<open>AttributeError\<close>
  where the row should have been skipped.
\<close>

theorem short_row_raises:
  "load_vendor_map example_lib
     [csv_path \<mapsto> \<lparr>content = ''Handle,Vendor\<newline>abc\<newline>'', meta = 0::nat\<rparr>] csv_path
   = Inl AttributeError"
  by (simp add: loader_eval)

text \<open>
  C7, as the code has it. Among the rows with the same normalised handle, the map holds
  the trimmed vendor of the last row whose trimmed vendor is not empty: a later row with
  that handle and an empty vendor is skipped by the guard of line 22 and leaves the entry
  alone. No row raises for being a duplicate.
\<close>

theorem last_vendor_wins:
  assumes "load_rows lower [] (rs @ r # rs') = Inr vendor_map"
    and "row_handle lower r = Inr k" and "k \<noteq> []"
    and "row_vendor r = Inr v" and "v \<noteq> []"
    and "\<forall>r'\<in>set rs'. row_handle lower r' = Inr k \<longrightarrow> row_vendor r' = Inr []"
  shows "dict_get vendor_map k = Some v"
proof -
  from assms(1) obtain vm1 where 1: "load_rows lower [] rs = Inr vm1"
    and 2: "load_rows lower vm1 (r # rs') = Inr vendor_map"
    by (auto simp: load_rows_append split: sum.splits)
  from assms(2-5) have "load_row lower vm1 r = Inr (dict_set vm1 k v)"
    by (simp add: load_row_ok)
  with 2 have "load_rows lower (dict_set vm1 k v) rs' = Inr vendor_map" by simp
  from load_rows_skip[OF this assms(6)] show ?thesis by (simp add: dict_get_set)
qed

text \<open>
  The rows \<open>abc,X\<close>, \<open> ABC,Y \<close>, \<open>abc,\<close> and \<open>def,Z\<close> under the header \<open>Handle,Vendor\<close>: the
  second row is the last one for \<open>abc\<close> with a vendor, and the map holds \<open>Y\<close>.
\<close>

theorem last_vendor_wins_witness:
  "load_rows ascii_lower []
     ([to_row [ascii ''Handle'', ascii ''Vendor''] [ascii ''abc'', ascii ''X'']] @
      to_row [ascii ''Handle'', ascii ''Vendor''] [ascii '' ABC'', ascii ''Y ''] #
      [to_row [ascii ''Handle'', ascii ''Vendor''] [ascii ''abc'', []],
       to_row [ascii ''Handle'', ascii ''Vendor''] [ascii ''def'', ascii ''Z'']])
   = Inr [(ascii ''abc'', ascii ''Y''), (ascii ''def'', ascii ''Z'')] \<and>
   dict_get [(ascii ''abc'', ascii ''Y''), (ascii ''def'', ascii ''Z'')] (ascii ''abc'')
   = Some (ascii ''Y'')"
proof -
  let ?H = "[ascii ''Handle'', ascii ''Vendor'']"
  let ?rs = "[to_row ?H [ascii ''abc'', ascii ''X'']]"
  let ?r = "to_row ?H [ascii '' ABC'', ascii ''Y '']"
  let ?rs' = "[to_row ?H [ascii ''abc'', []], to_row ?H [ascii ''def'', ascii ''Z'']]"
  have 1: "load_rows ascii_lower [] (?rs @ ?r # ?rs') =
      Inr [(ascii ''abc'', ascii ''Y''), (ascii ''def'', ascii ''Z'')]"
    by (simp add: loader_eval)
  have 2: "row_handle ascii_lower ?r = Inr (ascii ''abc'')" by (simp add: loader_eval)
  have 3: "ascii ''abc'' \<noteq> []" by (simp add: ascii_def)
  have 4: "row_vendor ?r = Inr (ascii ''Y'')" by (simp add: loader_eval)
  have 5: "ascii ''Y'' \<noteq> []" by (simp add: ascii_def)
  have 6: "\<forall>r'\<in>set ?rs'. row_handle ascii_lower r' = Inr (ascii ''abc'') \<longrightarrow>
      row_vendor r' = Inr []"
    by (simp add: loader_eval)
  from last_vendor_wins[OF 1 2 3 4 5 6] 1 show ?thesis by simp
qed

text \<open>
  C7 as it is worded fails on the table \<open>Handle,Vendor\<close>, \<open>abc,X\<close>, \<open>abc,\<close>: the last row read
  with the handle \<open>abc\<close> has the empty vendor, and the map holds \<open>X\<close>, the vendor of the row
  before it.
\<close>

theorem last_row_counterexample:
  "load_vendor_map example_lib
     [csv_path \<mapsto> \<lparr>content = ''Handle,Vendor\<newline>abc,X\<newline>abc,\<newline>'', meta = 0::nat\<rparr>]
     csv_path
   = Inr [(ascii ''abc'', ascii ''X'')] \<and>
   row_handle ascii_lower
     (last (DictReader (fst (plain_csv ''Handle,Vendor\<newline>abc,X\<newline>abc,\<newline>''))))
   = Inr (ascii ''abc'') \<and>
   row_vendor
     (last (DictReader (fst (plain_csv ''Handle,Vendor\<newline>abc,X\<newline>abc,\<newline>''))))
   = Inr []"
  by (simp add: loader_eval)

text \<open>
  C8, as the code has it. The loader checks nothing about the shape of the table. When the
  reader ends with an exception, the loader ends with an exception too (the reader's, or the
  \<open>AttributeError\<close> of a short row read before it) and returns no map. A file in which the
  reader finds no row at all, hence no header row, gives the empty map and no error.
\<close>

theorem loader_failures:
  assumes "fs path = Some f" and "csv_reader L (content f) = (rows, stop)"
  shows "(case stop of
            Some e \<Rightarrow>
              load_vendor_map L fs path = Inl e \<or> load_vendor_map L fs path = Inl AttributeError
          | None \<Rightarrow> rows = [] \<longrightarrow> load_vendor_map L fs path = Inr [])"
proof (cases stop)
  case None
  with assms show ?thesis by (simp add: load_vendor_map_def)
next
  case (Some e)
  show ?thesis
  proof (cases "load_rows (str_lower L) [] (DictReader rows)")
    case (Inl e')
    then have "e' = AttributeError" by (rule load_rows_Inl)
    with Inl assms Some show ?thesis by (simp add: load_vendor_map_def)
  next
    case (Inr vm)
    with assms Some show ?thesis by (simp add: load_vendor_map_def)
  qed
qed

text \<open>
  A reader that stops with \<open>csv.Error\<close> after the header row, and the empty file.
\<close>

theorem loader_failures_witness:
  "load_vendor_map
     (example_lib\<lparr>csv_reader := \<lambda>txt. ([[ascii ''Handle'', ascii ''Vendor'']], Some CsvError)\<rparr>)
     example_fs csv_path = Inl CsvError \<and>
   load_vendor_map example_lib [csv_path \<mapsto> \<lparr>content = [], meta = 0::nat\<rparr>] csv_path = Inr []"
proof -
  let ?L = "example_lib\<lparr>csv_reader :=
    \<lambda>txt. ([[ascii ''Handle'', ascii ''Vendor'']], Some CsvError)\<rparr>"
  let ?f = "\<lparr>content = ''Handle,Vendor\<newline>hat-001,Acme\<newline>'', meta = 7::nat\<rparr>"
  have 1: "example_fs csv_path = Some ?f"
    by (simp add: example_fs_def csv_path_def catalog_path_def)
  have 2: "csv_reader ?L (content ?f) = ([[ascii ''Handle'', ascii ''Vendor'']], Some CsvError)"
    by simp
  have ne: "load_vendor_map ?L example_fs csv_path \<noteq> Inl AttributeError"
    by (simp add: load_vendor_map_def 1)
  let ?g = "\<lparr>content = [], meta = 0::nat\<rparr>"
  have 3: "[csv_path \<mapsto> ?g] csv_path = Some ?g" by simp
  have 4: "csv_reader example_lib (content ?g) = ([], None)"
    by (simp add: example_lib_def plain_csv_def)
  from loader_failures[where fs = example_fs and path = csv_path, OF 1 2] ne
    loader_failures[where fs = "[csv_path \<mapsto> ?g]" and path = csv_path, OF 3 4]
  show ?thesis by simp
qed

text \<open>
  C8 as it is worded fails on the empty file: it exists, the reader finds no header row in
  it, and the loader returns the empty map where the claim has it fail.
\<close>

theorem empty_file_counterexample:
  "plain_csv [] = ([], None) \<and>
   load_vendor_map example_lib [csv_path \<mapsto> \<lparr>content = [], meta = 0::nat\<rparr>] csv_path = Inr []"
  by (simp add: loader_eval)

section \<open>The update of one product and of the products\<close>

lemma vendor_neq_handle: "ascii ''vendor'' \<noteq> ascii ''handle''"
  by (simp add: ascii_def)

lemma get_handle_Inr:
  assumes "get_handle lower p = Inr h"
  obtains d where "p = JObj d"
  using assms by (cases p) (auto simp: get_handle_def)

lemma get_handle_vendor:
  "get_handle lower (JObj (dict_set d (ascii ''vendor'') x)) = get_handle lower (JObj d)"
  using vendor_neq_handle by (simp add: get_handle_def dict_get_set)

lemma update_product_Inr:
  assumes "update_product lower vm p = Inr (p', hit)"
  shows "\<exists>d h. p = JObj d \<and> get_handle lower p = Inr h \<and>
           (hit \<longleftrightarrow> h \<noteq> [] \<and> dict_get vm h \<noteq> None) \<and>
           (if hit
            then \<exists>v. dict_get vm h = Some v \<and> p' = JObj (dict_set d (ascii ''vendor'') (JStr v))
            else p' = p)"
proof -
  from assms obtain h where h: "get_handle lower p = Inr h"
    by (auto simp: update_product_def split: sum.splits)
  then obtain d where d: "p = JObj d" by (rule get_handle_Inr)
  from assms h d show ?thesis
    by (auto simp: update_product_def setitem_def split: if_splits option.splits)
qed

lemma update_product_hit:
  "get_handle lower (JObj d) = Inr h \<Longrightarrow> h \<noteq> [] \<Longrightarrow> dict_get vm h = Some v \<Longrightarrow>
     update_product lower vm (JObj d) = Inr (JObj (dict_set d (ascii ''vendor'') (JStr v)), True)"
  by (simp add: update_product_def setitem_def)

lemma update_product_miss:
  "get_handle lower p = Inr h \<Longrightarrow> h = [] \<or> dict_get vm h = None \<Longrightarrow>
     update_product lower vm p = Inr (p, False)"
  by (auto simp: update_product_def)

lemma update_product_idem:
  assumes "update_product lower vm p = Inr (p', hit)"
  shows "update_product lower vm p' = Inr (p', hit)"
proof -
  from update_product_Inr[OF assms] obtain d h where d: "p = JObj d"
    and h: "get_handle lower p = Inr h"
    and hit: "hit \<longleftrightarrow> h \<noteq> [] \<and> dict_get vm h \<noteq> None"
    and br: "if hit
             then \<exists>v. dict_get vm h = Some v \<and> p' = JObj (dict_set d (ascii ''vendor'') (JStr v))
             else p' = p"
    by blast
  show ?thesis
  proof (cases hit)
    case True
    with br obtain v where v: "dict_get vm h = Some v"
      and p': "p' = JObj (dict_set d (ascii ''vendor'') (JStr v))" by auto
    from h d have "get_handle lower p' = Inr h" by (simp add: p' get_handle_vendor)
    with True hit v show ?thesis
      unfolding p' by (simp add: update_product_hit dict_set_idem)
  next
    case False
    with br assms show ?thesis by simp
  qed
qed

lemma update_product_frame:
  assumes "update_product lower vm p = Inr (p', hit)"
  shows "\<exists>d d'. p = JObj d \<and> p' = JObj d' \<and>
           other_fields (ascii ''vendor'') d' = other_fields (ascii ''vendor'') d"
  using update_product_Inr[OF assms] by (cases hit) (auto simp: other_fields_set)

lemma update_loop_Cons:
  assumes "update_loop lower vm (p # ps) u n = Inr (qs, c)"
  obtains p' hit ps' where "update_product lower vm p = Inr (p', hit)"
    "update_loop lower vm ps (if hit then u + 1 else u) (if hit then n else n + 1) = Inr (ps', c)"
    "qs = p' # ps'"
  using assms by (auto split: sum.splits if_splits prod.splits)

lemma update_loop_length:
  "update_loop lower vm ps u n = Inr (ps', c) \<Longrightarrow> length ps' = length ps"
proof (induction ps arbitrary: u n ps')
  case Nil
  then show ?case by simp
next
  case (Cons p ps)
  from Cons.prems show ?case
    by (rule update_loop_Cons) (use Cons.IH in auto)
qed

lemma update_loop_nth:
  "update_loop lower vm ps u n = Inr (ps', c) \<Longrightarrow> i < length ps \<Longrightarrow>
     \<exists>hit. update_product lower vm (ps ! i) = Inr (ps' ! i, hit)"
proof (induction ps arbitrary: u n ps' i)
  case Nil
  then show ?case by simp
next
  case (Cons p ps)
  from Cons.prems(1) obtain p' hit qs where
    p: "update_product lower vm p = Inr (p', hit)"
    and rest: "update_loop lower vm ps (if hit then u + 1 else u) (if hit then n else n + 1)
               = Inr (qs, c)"
    and eq: "ps' = p' # qs"
    by (rule update_loop_Cons)
  show ?case
  proof (cases i)
    case 0
    with p eq show ?thesis by auto
  next
    case (Suc j)
    with Cons.prems(2) have "j < length ps" by simp
    from Cons.IH[OF rest this] Suc eq show ?thesis by simp
  qed
qed

lemma update_loop_counts:
  "update_loop lower vm ps u n = Inr (ps', u', n') \<Longrightarrow>
     u' = u + length (filter (\<lambda>p. \<exists>p'. update_product lower vm p = Inr (p', True)) ps) \<and>
     n' = n + length (filter (\<lambda>p. update_product lower vm p = Inr (p, False)) ps)"
proof (induction ps arbitrary: u n ps')
  case Nil
  then show ?case by simp
next
  case (Cons p ps)
  from Cons.prems(1) obtain p' hit qs where
    p: "update_product lower vm p = Inr (p', hit)"
    and rest: "update_loop lower vm ps (if hit then u + 1 else u) (if hit then n else n + 1)
               = Inr (qs, u', n')"
    and eq: "ps' = p' # qs"
    by (rule update_loop_Cons)
  from update_product_Inr[OF p] have same: "\<not> hit \<Longrightarrow> p' = p" by (auto split: if_splits)
  from Cons.IH[OF rest] p same show ?case by (cases hit) auto
qed

lemma update_loop_idem:
  "update_loop lower vm ps u n = Inr (ps', c) \<Longrightarrow> update_loop lower vm ps' u n = Inr (ps', c)"
proof (induction ps arbitrary: u n ps')
  case Nil
  then show ?case by simp
next
  case (Cons p ps)
  from Cons.prems obtain p' hit qs where
    p: "update_product lower vm p = Inr (p', hit)"
    and rest: "update_loop lower vm ps (if hit then u + 1 else u) (if hit then n else n + 1)
               = Inr (qs, c)"
    and eq: "ps' = p' # qs"
    by (rule update_loop_Cons)
  from p have p2: "update_product lower vm p' = Inr (p', hit)" by (rule update_product_idem)
  from Cons.IH[OF rest] p2 show ?case unfolding eq by (cases hit) auto
qed

lemma update_loop_frame:
  "update_loop lower vm ps u n = Inr (ps', c) \<Longrightarrow>
     list_all2 (\<lambda>p p'. \<exists>d d'. p = JObj d \<and> p' = JObj d' \<and>
                  other_fields (ascii ''vendor'') d' = other_fields (ascii ''vendor'') d) ps ps'"
proof (induction ps arbitrary: u n ps')
  case Nil
  then show ?case by simp
next
  case (Cons p ps)
  from Cons.prems obtain p' hit qs where
    p: "update_product lower vm p = Inr (p', hit)"
    and rest: "update_loop lower vm ps (if hit then u + 1 else u) (if hit then n else n + 1)
               = Inr (qs, c)"
    and eq: "ps' = p' # qs"
    by (rule update_loop_Cons)
  from update_product_frame[OF p] Cons.IH[OF rest] show ?case unfolding eq by simp
qed

text \<open>
  The loop ends without an exception exactly on the catalogs of the data model: every
  product is a dict whose \<open>handle\<close>, when it has one, is a string.
\<close>

lemma get_handle_total:
  "(\<exists>h. get_handle lower p = Inr h) \<longleftrightarrow>
     (\<exists>d. p = JObj d \<and>
        (dict_get d (ascii ''handle'') = None \<or> (\<exists>s. dict_get d (ascii ''handle'') = Some (JStr s))))"
proof (cases p)
  case (JObj d)
  show ?thesis
  proof (cases "dict_get d (ascii ''handle'')")
    case None
    with JObj show ?thesis by (simp add: get_handle_def)
  next
    case (Some v)
    with JObj show ?thesis by (cases v) (simp_all add: get_handle_def)
  qed
qed (simp_all add: get_handle_def)

lemma update_product_total:
  "(\<exists>r. update_product lower vm p = Inr r) \<longleftrightarrow> (\<exists>h. get_handle lower p = Inr h)"
proof
  assume "\<exists>r. update_product lower vm p = Inr r"
  then show "\<exists>h. get_handle lower p = Inr h"
    by (auto simp: update_product_def split: sum.splits)
next
  assume "\<exists>h. get_handle lower p = Inr h"
  then obtain h where h: "get_handle lower p = Inr h" ..
  then obtain d where d: "p = JObj d" by (rule get_handle_Inr)
  show "\<exists>r. update_product lower vm p = Inr r"
  proof (cases "h \<noteq> [] \<and> dict_get vm h \<noteq> None")
    case True
    then obtain v where "dict_get vm h = Some v" by auto
    with True h d show ?thesis by (auto simp: update_product_hit)
  next
    case False
    with h show ?thesis by (auto simp: update_product_miss)
  qed
qed

lemma update_loop_total:
  "(\<exists>r. update_loop lower vm ps u n = Inr r) \<longleftrightarrow>
     (\<forall>p\<in>set ps. \<exists>h. get_handle lower p = Inr h)"
proof (induction ps arbitrary: u n)
  case Nil
  show ?case by simp
next
  case (Cons p ps)
  show ?case
  proof (cases "update_product lower vm p")
    case (Inl e)
    with update_product_total[of lower vm p] show ?thesis by auto
  next
    case (Inr r)
    obtain p' hit where r: "r = (p', hit)" by (cases r)
    from Inr update_product_total[of lower vm p] have h: "\<exists>h. get_handle lower p = Inr h"
      by auto
    from Inr r Cons.IH[of "u + 1" n] Cons.IH[of u "n + 1"] h show ?thesis
      by (cases hit) (auto split: sum.splits)
  qed
qed

section \<open>The update of the catalog\<close>

lemma getitem_products_Inr:
  "getitem_products catalog = Inr v \<longleftrightarrow>
     (\<exists>c. catalog = JObj c \<and> dict_get c (ascii ''products'') = Some v)"
  by (cases catalog) (auto simp: getitem_products_def split: option.splits)

lemma update_catalog_JArr:
  assumes "getitem_products catalog = Inr (JArr ps)"
  shows "update_catalog lower vm catalog = Inr (catalog', counts) \<longleftrightarrow>
           (\<exists>c ps'. catalog = JObj c \<and> update_loop lower vm ps 0 0 = Inr (ps', counts) \<and>
              catalog' = JObj (dict_set c (ascii ''products'') (JArr ps')))"
proof -
  from assms obtain c where c: "catalog = JObj c" "dict_get c (ascii ''products'') = Some (JArr ps)"
    by (auto simp: getitem_products_Inr)
  then show ?thesis
    by (auto simp: update_catalog_def getitem_products_def setitem_def split: sum.splits)
qed

lemma update_catalog_other:
  assumes "getitem_products catalog = Inr v" and "\<forall>ps. v \<noteq> JArr ps"
  shows "update_catalog lower vm catalog = Inr (catalog', counts) \<longleftrightarrow>
           (v = JObj [] \<or> v = JStr []) \<and> catalog' = catalog \<and> counts = (0, 0)"
  using assms
  by (cases v) (auto simp: update_catalog_def split: if_splits)

lemma update_catalog_Inr:
  assumes "update_catalog lower vm catalog = Inr (catalog', counts)"
  obtains v where "getitem_products catalog = Inr v"
  using assms by (auto simp: update_catalog_def split: sum.splits)

text \<open>The definitions that evaluate the update on a concrete catalog.\<close>

lemmas update_eval =
  update_catalog_def getitem_products_def setitem_def update_product_def get_handle_def
  ascii_def strip_def ascii_lower_def isspace_def example_products_def example_catalog_def
  example_vendor_map_def example_products_updated_def example_updated_def

lemma example_load:
  "load_vendor_map example_lib example_fs csv_path = Inr example_vendor_map"
  by (simp add: loader_eval example_fs_def example_vendor_map_def catalog_path_def)

lemma example_loop:
  "update_loop ascii_lower example_vendor_map example_products 0 0
   = Inr (example_products_updated, 1, 1)"
  by (simp add: update_eval)

lemma example_update:
  "update_catalog ascii_lower example_vendor_map example_catalog = Inr (example_updated, 1, 1)"
  by (simp add: update_eval)

lemma strip_decomp:
  "\<exists>pre post. s = pre @ strip s @ post \<and> list_all isspace pre \<and> list_all isspace post"
proof -
  define u where "u = dropWhile isspace s"
  have 1: "s = takeWhile isspace s @ u" by (simp add: u_def)
  have "rev u = takeWhile isspace (rev u) @ dropWhile isspace (rev u)" by simp
  then have "u = rev (dropWhile isspace (rev u)) @ rev (takeWhile isspace (rev u))"
    by (metis rev_append rev_rev_ident)
  then have 2: "u = strip s @ rev (takeWhile isspace (rev u))"
    unfolding strip_def u_def .
  have 3: "list_all isspace (takeWhile isspace s)"
    by (auto simp: list_all_iff dest: set_takeWhileD)
  have 4: "list_all isspace (rev (takeWhile isspace (rev u)))"
    by (auto simp: list_all_iff dest: set_takeWhileD)
  from 1 2 have "s = takeWhile isspace s @ strip s @ rev (takeWhile isspace (rev u))"
    by simp
  with 3 4 show ?thesis by blast
qed

lemma take_1_hd: "xs \<noteq> [] \<Longrightarrow> take 1 xs = [hd xs]"
  by (cases xs) simp_all

lemma strip_no_outer_space: "list_all (\<lambda>c. \<not> isspace c) (take 1 (strip s) @ take 1 (rev (strip s)))"
proof (cases "strip s = []")
  case True
  then show ?thesis by simp
next
  case False
  from strip_ends[OF False] have "\<not> isspace (hd (strip s))" "\<not> isspace (last (strip s))"
    by auto
  moreover from False have "take 1 (strip s) = [hd (strip s)]"
    by (rule take_1_hd)
  moreover from False have "take 1 (rev (strip s)) = [hd (rev (strip s))]"
    by (intro take_1_hd) simp
  moreover have "hd (rev (strip s)) = last (strip s)" by (simp add: hd_rev)
  ultimately show ?thesis by simp
qed

lemma get_handle_raw:
  assumes "get_handle lower (JObj d) = Inr h"
  shows "\<exists>raw. (case dict_get d (ascii ''handle'') of None \<Rightarrow> raw = [] | Some v \<Rightarrow> v = JStr raw) \<and>
           h = strip (lower raw)"
proof (cases "dict_get d (ascii ''handle'')")
  case None
  with assms show ?thesis by (auto simp: get_handle_def)
next
  case (Some v)
  with assms show ?thesis by (cases v) (auto simp: get_handle_def)
qed

text \<open>
  C1. For a vendor map the loader has returned and a run of the loop that ends without an
  exception, the \<open>i\<close>-th product is a dict. Its normalised handle \<open>h\<close> is the string \<open>raw\<close>
  under \<open>handle\<close> (the empty string when the key is absent), lower-cased and then trimmed:
  \<open>h\<close> is what is left of the lower-cased string between a leading and a trailing run of
  whitespace, and neither begins nor ends with whitespace. The loop takes the updating
  branch for the product exactly when \<open>h\<close> is a key of the map (the test \<open>handle\<close> of line 47
  adds nothing, since the loader stores no empty key); then the product after the loop is
  the product with \<open>vendor\<close> set to the map's value for \<open>h\<close>, and otherwise it is the product
  itself, whatever \<open>vendor\<close> it had.
\<close>

theorem join_correctness:
  assumes "load_vendor_map L fs path = Inr vendor_map"
    and "update_loop (str_lower L) vendor_map ps u n = Inr (ps', c)"
    and "i < length ps"
  shows "\<exists>d raw h pre post.
           ps ! i = JObj d \<and>
           (case dict_get d (ascii ''handle'') of None \<Rightarrow> raw = [] | Some v \<Rightarrow> v = JStr raw) \<and>
           h = strip (str_lower L raw) \<and>
           str_lower L raw = pre @ h @ post \<and> list_all isspace pre \<and> list_all isspace post \<and>
           list_all (\<lambda>c. \<not> isspace c) (take 1 h @ take 1 (rev h)) \<and>
           get_handle (str_lower L) (ps ! i) = Inr h \<and>
           update_product (str_lower L) vendor_map (ps ! i)
             = Inr (ps' ! i, h \<in> dict_keys vendor_map) \<and>
           (case dict_get vendor_map h of
              Some v \<Rightarrow>
                ps' ! i = JObj (dict_set d (ascii ''vendor'') (JStr v)) \<and>
                dict_get (dict_set d (ascii ''vendor'') (JStr v)) (ascii ''vendor'') = Some (JStr v)
            | None \<Rightarrow> ps' ! i = ps ! i)"
proof -
  from update_loop_nth[OF assms(2,3)] obtain hit where
    p: "update_product (str_lower L) vendor_map (ps ! i) = Inr (ps' ! i, hit)" ..
  from update_product_Inr[OF p] obtain d h where d: "ps ! i = JObj d"
    and h: "get_handle (str_lower L) (ps ! i) = Inr h"
    and hit: "hit \<longleftrightarrow> h \<noteq> [] \<and> dict_get vendor_map h \<noteq> None"
    and br: "if hit
             then \<exists>v. dict_get vendor_map h = Some v \<and>
                      ps' ! i = JObj (dict_set d (ascii ''vendor'') (JStr v))
             else ps' ! i = ps ! i"
    by blast
  from h d obtain raw where
    raw: "case dict_get d (ascii ''handle'') of None \<Rightarrow> raw = [] | Some v \<Rightarrow> v = JStr raw"
    and hraw: "h = strip (str_lower L raw)"
    using get_handle_raw[of "str_lower L" d h] by auto
  from strip_decomp[of "str_lower L raw"] obtain pre post where
    dec: "str_lower L raw = pre @ h @ post" "list_all isspace pre" "list_all isspace post"
    unfolding hraw by blast
  have ends: "list_all (\<lambda>c. \<not> isspace c) (take 1 h @ take 1 (rev h))"
    unfolding hraw by (rule strip_no_outer_space)
  from assms(1) have "dict_get vendor_map [] = None" by (rule load_vendor_map_no_empty_key)
  with hit have key: "hit \<longleftrightarrow> h \<in> dict_keys vendor_map"
    by (auto simp: dict_keys_def)
  have "case dict_get vendor_map h of
          Some v \<Rightarrow>
            ps' ! i = JObj (dict_set d (ascii ''vendor'') (JStr v)) \<and>
            dict_get (dict_set d (ascii ''vendor'') (JStr v)) (ascii ''vendor'') = Some (JStr v)
        | None \<Rightarrow> ps' ! i = ps ! i"
    using br key by (cases hit) (auto simp: dict_keys_def dict_get_set)
  with d raw hraw dec ends h p key show ?thesis by blast
qed

text \<open>
  The table row \<open>abc-123,Acme\<close> and two products: the handle \<open> ABC-123 \<close>, with a capital
  spelling and a space at either end, normalises to the key \<open>abc-123\<close> and the product gets
  the vendor \<open>Acme\<close>; the handle \<open>unknown-999\<close> is no key and the product keeps its vendor
  \<open>Old\<close>.
\<close>

theorem join_correctness_witness:
  "load_vendor_map example_lib
     [csv_path \<mapsto> \<lparr>content = ''Handle,Vendor\<newline>abc-123,Acme\<newline>'', meta = 0::nat\<rparr>] csv_path
   = Inr [(ascii ''abc-123'', ascii ''Acme'')] \<and>
   strip (ascii_lower (ascii '' ABC-123 '')) = ascii ''abc-123'' \<and>
   ascii_lower (ascii '' ABC-123 '') = ascii '' '' @ ascii ''abc-123'' @ ascii '' '' \<and>
   update_product ascii_lower [(ascii ''abc-123'', ascii ''Acme'')]
     (JObj [(ascii ''handle'', JStr (ascii '' ABC-123 ''))] :: int json)
   = Inr (JObj [(ascii ''handle'', JStr (ascii '' ABC-123 '')),
                (ascii ''vendor'', JStr (ascii ''Acme''))],
          ascii ''abc-123'' \<in> dict_keys [(ascii ''abc-123'', ascii ''Acme'')]) \<and>
   ascii ''abc-123'' \<in> dict_keys [(ascii ''abc-123'', ascii ''Acme'')] \<and>
   update_product ascii_lower [(ascii ''abc-123'', ascii ''Acme'')]
     (JObj [(ascii ''handle'', JStr (ascii ''unknown-999'')),
            (ascii ''vendor'', JStr (ascii ''Old''))] :: int json)
   = Inr (JObj [(ascii ''handle'', JStr (ascii ''unknown-999'')),
                (ascii ''vendor'', JStr (ascii ''Old''))],
          ascii ''unknown-999'' \<in> dict_keys [(ascii ''abc-123'', ascii ''Acme'')]) \<and>
   ascii ''unknown-999'' \<notin> dict_keys [(ascii ''abc-123'', ascii ''Acme'')]"
proof -
  let ?fs = "[csv_path \<mapsto> \<lparr>content = ''Handle,Vendor\<newline>abc-123,Acme\<newline>'', meta = 0::nat\<rparr>]"
  let ?vm = "[(ascii ''abc-123'', ascii ''Acme'')]"
  let ?d0 = "[(ascii ''handle'', JStr (ascii '' ABC-123 ''))] :: (pystr \<times> int json) list"
  let ?d1 = "[(ascii ''handle'', JStr (ascii ''unknown-999'')),
              (ascii ''vendor'', JStr (ascii ''Old''))] :: (pystr \<times> int json) list"
  let ?ps = "[JObj ?d0, JObj ?d1]"
  let ?ps' = "[JObj (?d0 @ [(ascii ''vendor'', JStr (ascii ''Acme''))]), JObj ?d1]"
  have l: "str_lower example_lib = ascii_lower" by (simp add: example_lib_def)
  have 1: "load_vendor_map example_lib ?fs csv_path = Inr ?vm"
    by (simp add: loader_eval)
  have 2: "update_loop (str_lower example_lib) ?vm ?ps 0 0 = Inr (?ps', 1, 1)"
    unfolding l by (simp add: update_eval)
  have s: "strip (ascii_lower (ascii '' ABC-123 '')) = ascii ''abc-123''"
    by (simp add: ascii_def strip_def ascii_lower_def isspace_def)
  have a: "ascii_lower (ascii '' ABC-123 '') = ascii '' '' @ ascii ''abc-123'' @ ascii '' ''"
    by (simp add: ascii_def ascii_lower_def)
  have s1: "strip (ascii_lower (ascii ''unknown-999'')) = ascii ''unknown-999''"
    by (simp add: ascii_def strip_def ascii_lower_def isspace_def)
  have k0: "ascii ''abc-123'' \<in> dict_keys ?vm" by (simp add: dict_keys_def)
  have k1: "ascii ''unknown-999'' \<notin> dict_keys ?vm" by (simp add: dict_keys_def ascii_def)
  have g: "dict_get ?d0 (ascii ''handle'') = Some (JStr (ascii '' ABC-123 ''))"
    "dict_get ?d1 (ascii ''handle'') = Some (JStr (ascii ''unknown-999''))"
    by simp_all
  from join_correctness[OF 1 2, of 0] have
    "update_product ascii_lower ?vm (JObj ?d0)
     = Inr (JObj (?d0 @ [(ascii ''vendor'', JStr (ascii ''Acme''))]), ascii ''abc-123'' \<in> dict_keys ?vm)"
    unfolding l using g(1) s by auto
  moreover from join_correctness[OF 1 2, of 1] have
    "update_product ascii_lower ?vm (JObj ?d1) = Inr (JObj ?d1, ascii ''unknown-999'' \<in> dict_keys ?vm)"
    unfolding l using g(2) s1 by auto
  ultimately show ?thesis using 1 s a k0 k1 by simp
qed

text \<open>
  C4. When the update of a catalog whose \<open>products\<close> is a list ends without an exception,
  the \<open>products\<close> of the catalog after it is a list of the same length, and its \<open>i\<close>-th element
  is what the loop body makes of the \<open>i\<close>-th input product.
\<close>

theorem count_conservation:
  assumes "update_catalog lower vendor_map catalog = Inr (catalog', counts)"
    and "getitem_products catalog = Inr (JArr ps)"
  shows "\<exists>ps'. getitem_products catalog' = Inr (JArr ps') \<and> length ps' = length ps \<and>
           (\<forall>i<length ps. \<exists>hit. update_product lower vendor_map (ps ! i) = Inr (ps' ! i, hit))"
proof -
  from assms obtain c ps' where c: "catalog = JObj c"
    and loop: "update_loop lower vendor_map ps 0 0 = Inr (ps', counts)"
    and c': "catalog' = JObj (dict_set c (ascii ''products'') (JArr ps'))"
    by (auto simp: update_catalog_JArr)
  have "getitem_products catalog' = Inr (JArr ps')"
    by (simp add: c' getitem_products_def dict_get_set)
  moreover from loop have "length ps' = length ps" by (rule update_loop_length)
  moreover have "\<forall>i<length ps. \<exists>hit. update_product lower vendor_map (ps ! i) = Inr (ps' ! i, hit)"
    using update_loop_nth[OF loop] by blast
  ultimately show ?thesis by blast
qed

theorem count_conservation_witness:
  "getitem_products example_updated = Inr (JArr example_products_updated) \<and>
   length example_products_updated = length example_products \<and>
   update_product ascii_lower example_vendor_map (example_products ! 1)
     = Inr (example_products_updated ! 1, False)"
proof -
  have 2: "getitem_products example_catalog = Inr (JArr example_products)"
    by (simp add: getitem_products_def example_catalog_def ascii_def)
  have 3: "getitem_products example_updated = Inr (JArr example_products_updated)"
    by (simp add: getitem_products_def example_updated_def ascii_def)
  have 4: "(1::nat) < length example_products" by (simp add: example_products_def)
  have 5: "update_product ascii_lower example_vendor_map (example_products ! 1)
      \<noteq> Inr (example_products_updated ! 1, True)"
    by (simp add: update_eval)
  from count_conservation[OF example_update 2] 3 4 5 show ?thesis
    by (metis (full_types) sum.inject(2) json.inject(4))
qed

text \<open>
  C9. Updating a catalog that has been updated with the same vendor map gives the same
  catalog again, with the same counters: the products are the same sequence, every matched
  product has its \<open>vendor\<close> set to the value it already holds.
\<close>

theorem update_idempotent:
  assumes "update_catalog lower vendor_map catalog = Inr (catalog', counts)"
  shows "update_catalog lower vendor_map catalog' = Inr (catalog', counts)"
proof -
  from assms obtain v where v: "getitem_products catalog = Inr v"
    by (rule update_catalog_Inr)
  show ?thesis
  proof (cases "\<exists>ps. v = JArr ps")
    case True
    then obtain ps where ps: "getitem_products catalog = Inr (JArr ps)" using v by auto
    from assms obtain c ps' where c: "catalog = JObj c"
      and loop: "update_loop lower vendor_map ps 0 0 = Inr (ps', counts)"
      and c': "catalog' = JObj (dict_set c (ascii ''products'') (JArr ps'))"
      by (auto simp: update_catalog_JArr[OF ps])
    have g: "getitem_products catalog' = Inr (JArr ps')"
      by (simp add: c' getitem_products_def dict_get_set)
    from loop have "update_loop lower vendor_map ps' 0 0 = Inr (ps', counts)"
      by (rule update_loop_idem)
    then have "\<exists>c0 ps0. catalog' = JObj c0 \<and>
        update_loop lower vendor_map ps' 0 0 = Inr (ps0, counts) \<and>
        catalog' = JObj (dict_set c0 (ascii ''products'') (JArr ps0))"
      by (intro exI[of _ "dict_set c (ascii ''products'') (JArr ps')"] exI[of _ ps'])
        (simp add: c' dict_set_idem)
    then show ?thesis by (simp only: update_catalog_JArr[OF g])
  next
    case False
    then have "\<forall>ps. v \<noteq> JArr ps" by simp
    from assms update_catalog_other[OF v this] show ?thesis by simp
  qed
qed

theorem update_idempotent_witness:
  "update_catalog ascii_lower example_vendor_map example_catalog = Inr (example_updated, 1, 1) \<and>
   update_catalog ascii_lower example_vendor_map example_updated = Inr (example_updated, 1, 1)"
  using update_idempotent[OF example_update] example_update by simp

lemma update_loop_sum:
  "update_loop lower vm ps u n = Inr (ps', u', n') \<Longrightarrow> u' + n' = u + n + length ps"
proof (induction ps arbitrary: u n ps')
  case Nil
  then show ?case by simp
next
  case (Cons p ps)
  from Cons.prems obtain p' hit qs where
    "update_product lower vm p = Inr (p', hit)"
    and rest: "update_loop lower vm ps (if hit then u + 1 else u) (if hit then n else n + 1)
               = Inr (qs, u', n')"
    by (rule update_loop_Cons)
  from Cons.IH[OF rest] show ?case by (cases hit) simp_all
qed

lemma update_product_blank:
  assumes ws: "\<And>s. list_all isspace s \<Longrightarrow> list_all isspace (lower s)"
    and blank: "dict_get d (ascii ''handle'') = None \<or>
      (\<exists>h. dict_get d (ascii ''handle'') = Some (JStr h) \<and> list_all isspace h)"
  shows "update_product lower vm (JObj d) = Inr (JObj d, False)"
proof -
  from blank obtain h where h: "list_all isspace h"
    and g: "get_handle lower (JObj d) = Inr (strip (lower h))"
    by (auto simp: get_handle_def intro: that[of "[]"])
  from ws[OF h] have "strip (lower h) = []" by (rule strip_space_only)
  with g show ?thesis by (simp add: update_product_miss)
qed

text \<open>
  C10. After a loop that started with both counters at zero and ended without an
  exception, the two counters add up to the number of products: \<open>updated_count\<close> counts the
  products that took the updating branch and \<open>not_found_count\<close> those that took the other.
  A product without a \<open>handle\<close>, or with a handle of whitespace only, takes the other branch
  whatever the vendor map holds. (\<open>str.lower\<close> maps a string of whitespace to a string of
  whitespace; this is the one property of the case mapping the statement needs.)
\<close>

theorem counters_partition:
  assumes "\<forall>s. list_all isspace s \<longrightarrow> list_all isspace (lower s)"
    and "update_loop lower vendor_map ps 0 0 = Inr (ps', updated_count, not_found_count)"
  shows "updated_count + not_found_count = length ps \<and>
         updated_count
           = length (filter (\<lambda>p. \<exists>p'. update_product lower vendor_map p = Inr (p', True)) ps) \<and>
         not_found_count
           = length (filter (\<lambda>p. update_product lower vendor_map p = Inr (p, False)) ps) \<and>
         (\<forall>d. dict_get d (ascii ''handle'') = None \<or>
               (\<exists>h. dict_get d (ascii ''handle'') = Some (JStr h) \<and> list_all isspace h) \<longrightarrow>
               update_product lower vendor_map (JObj d) = Inr (JObj d, False))"
proof -
  have "\<forall>d. dict_get d (ascii ''handle'') = None \<or>
            (\<exists>h. dict_get d (ascii ''handle'') = Some (JStr h) \<and> list_all isspace h) \<longrightarrow>
            update_product lower vendor_map (JObj d) = Inr (JObj d, False)"
    using update_product_blank[of lower _ vendor_map] assms(1) by blast
  with update_loop_sum[OF assms(2)] update_loop_counts[OF assms(2)] show ?thesis by simp
qed

text \<open>
  The two products of the example, one counted in each counter, and a product whose handle
  is two spaces.
\<close>

theorem counters_partition_witness:
  "update_loop ascii_lower example_vendor_map example_products 0 0
     = Inr (example_products_updated, 1, 1) \<and>
   (1::nat) + 1 = length example_products \<and>
   update_product ascii_lower example_vendor_map
     (JObj [(ascii ''handle'', JStr (ascii ''  ''))] :: int json)
     = Inr (JObj [(ascii ''handle'', JStr (ascii ''  ''))], False)"
proof -
  let ?d = "[(ascii ''handle'', JStr (ascii ''  ''))] :: (pystr \<times> int json) list"
  have b: "dict_get ?d (ascii ''handle'') = None \<or>
      (\<exists>h. dict_get ?d (ascii ''handle'') = Some (JStr h) \<and> list_all isspace h)"
    by (simp add: ascii_def isspace_def)
  have ws: "\<forall>s. list_all isspace s \<longrightarrow> list_all isspace (ascii_lower s)"
    using ascii_lower_space by blast
  note t = counters_partition[OF ws example_loop]
  from t have 1: "(1::nat) + 1 = length example_products" by (elim conjE)
  from t have "dict_get ?d (ascii ''handle'') = None \<or>
      (\<exists>h. dict_get ?d (ascii ''handle'') = Some (JStr h) \<and> list_all isspace h) \<longrightarrow>
      update_product ascii_lower example_vendor_map (JObj ?d) = Inr (JObj ?d, False)"
    by (elim conjE) (erule allE)
  with b have 2: "update_product ascii_lower example_vendor_map (JObj ?d) = Inr (JObj ?d, False)"
    by (rule rev_mp)
  from example_loop 1 2 show ?thesis by (intro conjI)
qed

section \<open>The run\<close>

lemma backup_path_neq: "backup_path E \<noteq> catalog_path"
  by (simp add: backup_path_def)

lemma main_success:
  assumes "main L E fs = (Inr counts, fs')"
  shows "\<exists>vm f catalog catalog'.
           load_vendor_map L fs csv_path = Inr vm \<and> fs catalog_path = Some f \<and>
           json_load L (content f) = Inr catalog \<and>
           update_catalog (str_lower L) vm catalog = Inr (catalog', counts) \<and>
           fs' = fs(backup_path E \<mapsto> f,
                    catalog_path \<mapsto>
                      \<lparr>content = json_dump L catalog', meta = modified E (meta f)\<rparr>)"
proof -
  from assms obtain vm where vm: "load_vendor_map L fs csv_path = Inr vm"
    by (auto simp: main_def split: sum.splits)
  from assms vm obtain f where f: "fs catalog_path = Some f"
    by (auto simp: main_def split: option.splits)
  from assms vm f obtain catalog where c: "json_load L (content f) = Inr catalog"
    by (auto simp: main_def split: sum.splits)
  from assms vm f c obtain catalog' where
    u: "update_catalog (str_lower L) vm catalog = Inr (catalog', counts)"
    by (auto simp: main_def split: sum.splits prod.splits option.splits)
  from assms vm f c u have
    "fs' = fs(backup_path E \<mapsto> f,
              catalog_path \<mapsto> \<lparr>content = json_dump L catalog', meta = modified E (meta f)\<rparr>)"
    using backup_path_neq[of E]
    by (auto simp: main_def copy2_def write_text_def written_meta_def
        split: prod.splits option.splits fault.splits if_splits)
  with vm f c u show ?thesis by blast
qed

lemma main_reaches_backup:
  assumes "load_vendor_map L fs csv_path = Inr vm" and "fs catalog_path = Some f"
    and "json_load L (content f) = Inr catalog"
    and "update_catalog (str_lower L) vm catalog = Inr (catalog', counts)"
  shows "main L E fs =
           (case copy2 E fs catalog_path (backup_path E) of
              (Some e, fs1) \<Rightarrow> (Inl e, fs1)
            | (None, fs1) \<Rightarrow>
                (case write_text E fs1 catalog_path (json_dump L catalog') of
                   (Some e, fs2) \<Rightarrow> (Inl e, fs2)
                 | (None, fs2) \<Rightarrow> (Inr counts, fs2)))"
  using assms by (simp add: main_def)

lemma copy2_keeps_source:
  assumes "copy2 E fs catalog_path (backup_path E) = (r, fs1)"
  shows "fs1 catalog_path = fs catalog_path \<and> (\<forall>p. p \<noteq> backup_path E \<longrightarrow> fs1 p = fs p) \<and>
         (r = None \<longrightarrow> fs1 (backup_path E) = fs catalog_path)"
  using assms backup_path_neq[of E]
  by (auto simp: copy2_def split: option.splits fault.splits if_splits)


lemma main_early_exit:
  assumes "main L E fs = (r, fs')"
  shows "fs' = fs \<or>
         (\<exists>vm f catalog catalog' counts.
            load_vendor_map L fs csv_path = Inr vm \<and> fs catalog_path = Some f \<and>
            json_load L (content f) = Inr catalog \<and>
            update_catalog (str_lower L) vm catalog = Inr (catalog', counts))"
  using assms
  by (auto simp: main_def split: sum.splits option.splits prod.splits)

lemma example_catalog_file:
  "example_fs catalog_path = Some \<lparr>content = example_json, meta = 8\<rparr>"
  by (simp add: example_fs_def)

lemma example_json_load:
  "json_load example_lib (content \<lparr>content = example_json, meta = 8::nat\<rparr>) = Inr example_catalog"
  by (simp add: example_lib_def)

lemma example_lib_update:
  "update_catalog (str_lower example_lib) example_vendor_map example_catalog
   = Inr (example_updated, 1, 1)"
  using example_update by (simp add: example_lib_def)

lemma example_timestamp: "py_int (timestamp example_env) = 1700000000"
  by code_simp

lemma example_backup_path:
  "backup_path example_env = ''valid_image_catalog.json.backup-1700000000''"
  by (simp add: backup_path_def example_timestamp str_int_def catalog_path_def)

lemma example_env_fields:
  "copy_fault example_env = NoFault" "write_fault example_env = NoFault"
  "modified example_env = Suc" "created example_env = 0"
  by (simp_all add: example_env_def)

lemma example_main:
  "main example_lib example_env example_fs
   = (Inr (1, 1),
      example_fs(backup_path example_env \<mapsto> \<lparr>content = example_json, meta = 8\<rparr>,
                 catalog_path \<mapsto> \<lparr>content = example_written, meta = 9\<rparr>))"
proof -
  have c: "copy2 example_env example_fs catalog_path (backup_path example_env)
      = (None, example_fs(backup_path example_env \<mapsto> \<lparr>content = example_json, meta = 8\<rparr>))"
    using backup_path_neq[of example_env]
    by (simp add: copy2_def example_catalog_file example_env_fields)
  have d: "json_dump example_lib example_updated = example_written"
    by (simp add: example_lib_def)
  have w: "write_text example_env
        (example_fs(backup_path example_env \<mapsto> \<lparr>content = example_json, meta = 8\<rparr>))
        catalog_path example_written
      = (None, example_fs(backup_path example_env \<mapsto> \<lparr>content = example_json, meta = 8\<rparr>,
                          catalog_path \<mapsto> \<lparr>content = example_written, meta = 9\<rparr>))"
    using backup_path_neq[of example_env]
    by (simp add: write_text_def written_meta_def example_catalog_file example_env_fields)
  show ?thesis
    unfolding main_reaches_backup[OF example_load example_catalog_file example_json_load
        example_lib_update]
    by (simp add: c d w)
qed

text \<open>
  C2. When the copy made for the backup fails, the run ends with an exception and the
  catalog file is what it was: no run writes the catalog after a failed copy. If the run
  has come as far as the backup step, the exception it ends with is the one of the copy,
  and it leaves the file system as the failed copy left it.
\<close>

theorem backup_failure_aborts:
  assumes "copy2 E fs catalog_path (backup_path E) = (Some e, fs1)"
  shows "(\<exists>e'. fst (main L E fs) = Inl e') \<and>
         snd (main L E fs) catalog_path = fs catalog_path \<and>
         (\<forall>vm f catalog catalog' counts.
            load_vendor_map L fs csv_path = Inr vm \<and> fs catalog_path = Some f \<and>
            json_load L (content f) = Inr catalog \<and>
            update_catalog (str_lower L) vm catalog = Inr (catalog', counts) \<longrightarrow>
            main L E fs = (Inl e, fs1))"
proof -
  from copy2_keeps_source[OF assms] have keep: "fs1 catalog_path = fs catalog_path" by simp
  have reach: "main L E fs = (Inl e, fs1)"
    if "load_vendor_map L fs csv_path = Inr vm" "fs catalog_path = Some f"
      "json_load L (content f) = Inr catalog"
      "update_catalog (str_lower L) vm catalog = Inr (catalog', counts)"
    for vm f catalog catalog' counts
    unfolding main_reaches_backup[OF that] by (simp add: assms)
  obtain r fs' where m: "main L E fs = (r, fs')" by (cases "main L E fs")
  from main_early_exit[OF m] have "(\<exists>e'. r = Inl e') \<and> fs' catalog_path = fs catalog_path"
  proof
    assume same: "fs' = fs"
    have "\<exists>e'. r = Inl e'"
    proof (cases r)
      case (Inl e')
      then show ?thesis by simp
    next
      case (Inr counts)
      with m have "main L E fs = (Inr counts, fs')" by simp
      from main_success[OF this] obtain vm f catalog catalog' where
        "load_vendor_map L fs csv_path = Inr vm" "fs catalog_path = Some f"
        "json_load L (content f) = Inr catalog"
        "update_catalog (str_lower L) vm catalog = Inr (catalog', counts)"
        by blast
      from reach[OF this] m Inr show ?thesis by simp
    qed
    with same show ?thesis by simp
  next
    assume "\<exists>vm f catalog catalog' counts.
      load_vendor_map L fs csv_path = Inr vm \<and> fs catalog_path = Some f \<and>
      json_load L (content f) = Inr catalog \<and>
      update_catalog (str_lower L) vm catalog = Inr (catalog', counts)"
    with reach have "main L E fs = (Inl e, fs1)" by blast
    with m keep show ?thesis by auto
  qed
  with m reach show ?thesis by auto
qed

text \<open>
  The example run with a copy that fails after five bytes: the run ends with the
  \<open>OSError\<close> of the copy, a five-byte backup file is left, the catalog file is untouched.
\<close>

theorem backup_failure_aborts_witness:
  "main example_lib (example_env\<lparr>copy_fault := FailsAfter 5\<rparr>) example_fs
   = (Inl OSError,
      example_fs(backup_path example_env \<mapsto> \<lparr>content = take 5 example_json, meta = 0\<rparr>)) \<and>
   snd (main example_lib (example_env\<lparr>copy_fault := FailsAfter 5\<rparr>) example_fs) catalog_path
   = example_fs catalog_path"
proof -
  let ?E = "example_env\<lparr>copy_fault := FailsAfter 5\<rparr>"
  have b: "backup_path ?E = backup_path example_env" by (simp add: backup_path_def)
  have n: "example_fs (backup_path example_env) = None"
    by (simp add: example_fs_def example_backup_path csv_path_def catalog_path_def)
  have c: "copy2 ?E example_fs catalog_path (backup_path ?E)
      = (Some OSError,
         example_fs(backup_path example_env \<mapsto> \<lparr>content = take 5 example_json, meta = 0\<rparr>))"
    using backup_path_neq[of example_env]
    by (simp add: copy2_def example_catalog_file b written_meta_def n example_env_fields)
  from backup_failure_aborts[OF c, of example_lib] example_load example_catalog_file
    example_json_load example_lib_update
  show ?thesis by blast
qed



text \<open>
  C3. In a run that ends well the catalog file holds the dump of a document that differs
  from the document read only under the key \<open>products\<close>: every other top-level entry is
  there, unchanged and in its place. When \<open>products\<close> is a list, the products after the run
  are dicts that differ from the products before, one by one, only under the key \<open>vendor\<close>;
  when it is not, the document is written back as it was read.
\<close>

theorem unrelated_fields_kept:
  assumes "main L E fs = (Inr counts, fs')"
  shows "\<exists>f f' c c'.
           fs catalog_path = Some f \<and> json_load L (content f) = Inr (JObj c) \<and>
           fs' catalog_path = Some f' \<and> content f' = json_dump L (JObj c') \<and>
           other_fields (ascii ''products'') c' = other_fields (ascii ''products'') c \<and>
           map fst c' = map fst c \<and>
           (case dict_get c (ascii ''products'') of
              Some (JArr ps) \<Rightarrow>
                (\<exists>ps'. dict_get c' (ascii ''products'') = Some (JArr ps') \<and>
                   list_all2 (\<lambda>p p'. \<exists>d d'. p = JObj d \<and> p' = JObj d' \<and>
                       other_fields (ascii ''vendor'') d' = other_fields (ascii ''vendor'') d)
                     ps ps')
            | _ \<Rightarrow> c' = c)"
proof -
  from main_success[OF assms] obtain vm f catalog catalog' where
    f: "fs catalog_path = Some f" and j: "json_load L (content f) = Inr catalog"
    and u: "update_catalog (str_lower L) vm catalog = Inr (catalog', counts)"
    and fs': "fs' = fs(backup_path E \<mapsto> f,
        catalog_path \<mapsto> \<lparr>content = json_dump L catalog', meta = modified E (meta f)\<rparr>)"
    by blast
  from u obtain v where v: "getitem_products catalog = Inr v" by (rule update_catalog_Inr)
  then obtain c where c: "catalog = JObj c" and g: "dict_get c (ascii ''products'') = Some v"
    by (auto simp: getitem_products_Inr)
  have "\<exists>c'. catalog' = JObj c' \<and>
          other_fields (ascii ''products'') c' = other_fields (ascii ''products'') c \<and>
          map fst c' = map fst c \<and>
          (case dict_get c (ascii ''products'') of
             Some (JArr ps) \<Rightarrow>
               (\<exists>ps'. dict_get c' (ascii ''products'') = Some (JArr ps') \<and>
                  list_all2 (\<lambda>p p'. \<exists>d d'. p = JObj d \<and> p' = JObj d' \<and>
                      other_fields (ascii ''vendor'') d' = other_fields (ascii ''vendor'') d)
                    ps ps')
           | _ \<Rightarrow> c' = c)"
  proof (cases "\<exists>ps. v = JArr ps")
    case True
    then obtain ps where ps: "v = JArr ps" by blast
    from u v ps c obtain ps' where
      loop: "update_loop (str_lower L) vm ps 0 0 = Inr (ps', counts)"
      and c': "catalog' = JObj (dict_set c (ascii ''products'') (JArr ps'))"
      by (auto simp: update_catalog_JArr)
    from update_loop_frame[OF loop] g ps show ?thesis
      by (simp add: c' other_fields_set map_fst_dict_set dict_get_set)
  next
    case False
    then have n: "\<forall>ps. v \<noteq> JArr ps" by simp
    from u update_catalog_other[OF v n] c have "catalog' = JObj c" by simp
    with g n show ?thesis by (cases v) simp_all
  qed
  then obtain c' where "catalog' = JObj c'"
    and rest: "other_fields (ascii ''products'') c' = other_fields (ascii ''products'') c \<and>
          map fst c' = map fst c \<and>
          (case dict_get c (ascii ''products'') of
             Some (JArr ps) \<Rightarrow>
               (\<exists>ps'. dict_get c' (ascii ''products'') = Some (JArr ps') \<and>
                  list_all2 (\<lambda>p p'. \<exists>d d'. p = JObj d \<and> p' = JObj d' \<and>
                      other_fields (ascii ''vendor'') d' = other_fields (ascii ''vendor'') d)
                    ps ps')
           | _ \<Rightarrow> c' = c)"
    by blast
  with f j c fs' have
    "fs catalog_path = Some f \<and> json_load L (content f) = Inr (JObj c) \<and>
     fs' catalog_path = Some \<lparr>content = json_dump L catalog', meta = modified E (meta f)\<rparr> \<and>
     content \<lparr>content = json_dump L catalog', meta = modified E (meta f)\<rparr> = json_dump L (JObj c')"
    by simp
  with rest show ?thesis by blast
qed

text \<open>
  The example run: the entry \<open>version\<close> is written back, and so are \<open>handle\<close> and \<open>title\<close> of
  the product that gets the vendor \<open>Acme\<close>.
\<close>

theorem unrelated_fields_kept_witness:
  "main example_lib example_env example_fs
   = (Inr (1, 1),
      example_fs(backup_path example_env \<mapsto> \<lparr>content = example_json, meta = 8\<rparr>,
                 catalog_path \<mapsto> \<lparr>content = example_written, meta = 9\<rparr>)) \<and>
   (\<exists>f f' c c'.
      example_fs catalog_path = Some f \<and> json_load example_lib (content f) = Inr (JObj c) \<and>
      (example_fs(backup_path example_env \<mapsto> \<lparr>content = example_json, meta = 8\<rparr>,
                  catalog_path \<mapsto> \<lparr>content = example_written, meta = 9\<rparr>)) catalog_path
        = Some f' \<and>
      content f' = json_dump example_lib (JObj c') \<and>
      other_fields (ascii ''products'') c' = other_fields (ascii ''products'') c \<and>
      map fst c' = map fst c \<and>
      (case dict_get c (ascii ''products'') of
         Some (JArr ps) \<Rightarrow>
           (\<exists>ps'. dict_get c' (ascii ''products'') = Some (JArr ps') \<and>
              list_all2 (\<lambda>p p'. \<exists>d d'. p = JObj d \<and> p' = JObj d' \<and>
                  other_fields (ascii ''vendor'') d' = other_fields (ascii ''vendor'') d)
                ps ps')
       | _ \<Rightarrow> c' = c))"
  using unrelated_fields_kept[OF example_main] example_main by blast

end
